theory Spec2Isabelle
  imports Complex_Main "HOL-Library.AList"
begin

section \<open>Page break positions of the page-break indicator plugin\<close>

text \<open>
  The plugin (\<^verbatim>\<open>src/main.js\<close>) predicts where a paginated export splits a document and
  draws a marker at each predicted offset. A \<^verbatim>\<open>while\<close> loop that may run forever is a
  \<^theory_text>\<open>partial_function (option)\<close>: \<^term>\<open>None\<close> is "does not return". Whole numbers (the page
  counter \<^verbatim>\<open>currentPage\<close>, DOM \<^verbatim>\<open>scrollHeight\<close>) are \<^typ>\<open>int\<close>.

  JavaScript numbers are binary64 doubles, and the arithmetic is modelled twice. The
  first model takes numbers as \<^typ>\<open>real\<close> and every operation as exact. It carries the
  properties that rounding does not touch (a loop test that fails at once, the spacing
  against the top edge, the page geometry within a pixel, a loop that never ends) and
  the evaluation of the code at inputs where no comparison is within a rounding error of
  a tie. The second model rounds every arithmetic result to the nearest double and
  carries the properties of break generation that rounding decides: the order of the
  returned offsets and their bound by the total height.
\<close>

subsection \<open>Break generation in exact arithmetic (\<^verbatim>\<open>calculateSimpleBreaks\<close>, lines 323-346)\<close>

text \<open>
  The loop of lines 334-343. The loop state is \<^verbatim>\<open>currentPage\<close>, \<^verbatim>\<open>lastBreakY\<close> and the
  array \<^verbatim>\<open>breaks\<close>; \<^verbatim>\<open>breaks.push\<close> appends at the end.
\<close>

partial_function (option) simpleBreaks_loop ::
  "real \<Rightarrow> real \<Rightarrow> real \<Rightarrow> real \<Rightarrow> int \<Rightarrow> real \<Rightarrow> real list \<Rightarrow> real list option" where
  "simpleBreaks_loop pageHeight totalHeight calibrationOffset minBreakSpacing
       currentPage lastBreakY breaks =
     (if of_int currentPage * pageHeight < totalHeight then
        (let breakY = of_int currentPage * pageHeight + calibrationOffset in
         if breakY - lastBreakY \<ge> minBreakSpacing
         then simpleBreaks_loop pageHeight totalHeight calibrationOffset minBreakSpacing
                (currentPage + 1) breakY (breaks @ [breakY])
         else simpleBreaks_loop pageHeight totalHeight calibrationOffset minBreakSpacing
                (currentPage + 1) lastBreakY breaks)
      else Some breaks)"

text \<open>
  \<^verbatim>\<open>calculateSimpleBreaks\<close> reads the page height from \<^verbatim>\<open>getPageHeight()\<close>, the total height
  from \<^verbatim>\<open>container.scrollHeight\<close> and two settings; here they are its parameters. It starts
  the loop at \<^verbatim>\<open>currentPage = 1\<close>, \<^verbatim>\<open>lastBreakY = 0\<close>, \<^verbatim>\<open>breaks = []\<close>.
\<close>

definition calculateSimpleBreaks :: "real \<Rightarrow> real \<Rightarrow> real \<Rightarrow> real \<Rightarrow> real list option" where
  "calculateSimpleBreaks pageHeight totalHeight calibrationOffset minBreakSpacing =
     simpleBreaks_loop pageHeight totalHeight calibrationOffset minBreakSpacing 1 0 []"

subsection \<open>Incremental extension in exact arithmetic (\<^verbatim>\<open>createAdditionalBreaks\<close>, lines 171-186)\<close>

partial_function (option) additionalBreaks_loop ::
  "real \<Rightarrow> real \<Rightarrow> real \<Rightarrow> real \<Rightarrow> real \<Rightarrow> int \<Rightarrow> real \<Rightarrow> real list \<Rightarrow> real list option" where
  "additionalBreaks_loop pageHeight oldHeight newHeight calibrationOffset minBreakSpacing
       currentPage lastBreakY breaks =
     (if of_int currentPage * pageHeight < newHeight then
        (let breakY = of_int currentPage * pageHeight + calibrationOffset in
         if breakY - lastBreakY \<ge> minBreakSpacing \<and> breakY > oldHeight
         then additionalBreaks_loop pageHeight oldHeight newHeight calibrationOffset
                minBreakSpacing (currentPage + 1) breakY (breaks @ [breakY])
         else additionalBreaks_loop pageHeight oldHeight newHeight calibrationOffset
                minBreakSpacing (currentPage + 1) lastBreakY breaks)
      else Some breaks)"

text \<open>
  The loop starts at page \<^verbatim>\<open>Math.floor(lastBreak / pageHeight) + 1\<close>. For \<^verbatim>\<open>pageHeight = 0\<close>
  the JavaScript quotient is \<^verbatim>\<open>NaN\<close> or an infinity, \<^verbatim>\<open>currentPage * pageHeight\<close> is \<^verbatim>\<open>NaN\<close>,
  the loop test is false and the result is the empty array; HOL's \<open>x / 0 = 0\<close> would
  say otherwise, so that case is written out. Quotient and floor are exact here, where
  the program rounds the quotient to a double before \<^verbatim>\<open>Math.floor\<close>; the extender is
  evaluated below only at inputs whose quotient is far from a whole number.
\<close>

definition createAdditionalBreaks ::
  "real \<Rightarrow> real \<Rightarrow> real \<Rightarrow> real \<Rightarrow> real \<Rightarrow> real \<Rightarrow> real list option" where
  "createAdditionalBreaks calibrationOffset minBreakSpacing lastBreak oldHeight newHeight
       pageHeight =
     (if pageHeight = 0 then Some []
      else additionalBreaks_loop pageHeight oldHeight newHeight calibrationOffset
             minBreakSpacing (\<lfloor>lastBreak / pageHeight\<rfloor> + 1) lastBreak [])"

text \<open>
  \<^verbatim>\<open>extendContainersIfNeeded\<close> (lines 152-153) passes the last cached offset, or 0 when the
  cached sequence is empty.
\<close>

definition lastBreakPosition :: "real list \<Rightarrow> real" where
  "lastBreakPosition existingBreaks =
     (if length existingBreaks > 0 then existingBreaks ! (length existingBreaks - 1) else 0)"

subsection \<open>The accepted offsets as a total function\<close>

text \<open>
  For a positive page height both loops visit finitely many pages. \<open>accepted_from\<close> lists
  the offsets a loop accepts from page \<open>p\<close> on when the last accepted offset is \<open>l\<close>;
  \<open>keep\<close> is the extra test of the extender (\<^verbatim>\<open>breakY > oldHeight\<close>), constantly true for
  the generator. It is a proof device; the lemmas below tie it to the loops.
\<close>

function accepted_from ::
  "(real \<Rightarrow> bool) \<Rightarrow> real \<Rightarrow> real \<Rightarrow> real \<Rightarrow> real \<Rightarrow> int \<Rightarrow> real \<Rightarrow> real list" where
  "accepted_from keep ph bound off ms p l =
     (if 0 < ph \<and> of_int p * ph < bound then
        (if ms \<le> of_int p * ph + off - l \<and> keep (of_int p * ph + off)
         then (of_int p * ph + off) # accepted_from keep ph bound off ms (p + 1) (of_int p * ph + off)
         else accepted_from keep ph bound off ms (p + 1) l)
      else [])"
  by pat_completeness auto
termination
proof (relation "measure (\<lambda>(keep, ph, bound, off, ms, p, l). nat (\<lceil>bound / ph\<rceil> - p))")
  show "wf (measure (\<lambda>(keep, ph, bound, off, ms, p, l). nat (\<lceil>bound / ph\<rceil> - p)))"
    by simp
next
  fix keep :: "real \<Rightarrow> bool" and ph bound off ms l :: real and p :: int
  assume "0 < ph \<and> of_int p * ph < bound"
  then have "of_int p < bound / ph"
    by (simp add: pos_less_divide_eq)
  then have "p < \<lceil>bound / ph\<rceil>"
    by (simp add: less_ceiling_iff)
  then show "((keep, ph, bound, off, ms, p + 1, of_int p * ph + off),
              (keep, ph, bound, off, ms, p, l))
             \<in> measure (\<lambda>(keep, ph, bound, off, ms, p, l). nat (\<lceil>bound / ph\<rceil> - p))"
    and "((keep, ph, bound, off, ms, p + 1, l), (keep, ph, bound, off, ms, p, l))
             \<in> measure (\<lambda>(keep, ph, bound, off, ms, p, l). nat (\<lceil>bound / ph\<rceil> - p))"
    by simp_all
qed

declare accepted_from.simps [simp del]

subsection \<open>Binary64 arithmetic\<close>

text \<open>
  JavaScript computes in IEEE 754 binary64. \<open>binade x\<close> is, for a positive \<open>x\<close>, the
  exponent \<open>e\<close> with \<open>2\<^sup>e \<le> x < 2\<^sup>e\<^sup>+\<^sup>1\<close>; \<open>rne\<close> rounds to the nearest whole number, a tie
  to the even one; \<open>ulp_exponent x\<close> is the exponent of the unit in the last place of the
  doubles around \<open>x\<close>, 52 below the binade and never below -1074 (the subnormal range);
  \<open>binary64 x\<close> is the double nearest to \<open>x\<close>. Overflow is not modelled: where the program
  would produce an infinity the model goes on with a finite value. Infinities and \<^verbatim>\<open>NaN\<close>
  are no values of the model.
\<close>

function binade :: "real \<Rightarrow> int" where
  "binade x =
     (if x \<le> 0 then 0
      else if 2 \<le> x then binade (x / 2) + 1
      else if x < 1 then binade (2 * x) - 1
      else 0)"
  by pat_completeness auto
termination
proof (relation "measure (\<lambda>x. if 1 \<le> x then nat \<lfloor>x\<rfloor> else nat \<lfloor>1 / x\<rfloor> + 1)")
  show "wf (measure (\<lambda>x::real. if 1 \<le> x then nat \<lfloor>x\<rfloor> else nat \<lfloor>1 / x\<rfloor> + 1))"
    by simp
next
  fix x :: real
  assume "\<not> x \<le> 0" and x: "2 \<le> x"
  have "\<lfloor>x / 2\<rfloor> \<le> \<lfloor>x - 1\<rfloor>" using x by (intro floor_mono) simp
  then have "\<lfloor>x / 2\<rfloor> < \<lfloor>x\<rfloor>" by simp
  moreover have "1 \<le> \<lfloor>x / 2\<rfloor>" using x by simp
  ultimately show "(x / 2, x) \<in> measure (\<lambda>x. if 1 \<le> x then nat \<lfloor>x\<rfloor> else nat \<lfloor>1 / x\<rfloor> + 1)"
    using x by simp
next
  fix x :: real
  assume pos: "\<not> x \<le> 0" and "\<not> 2 \<le> x" and x: "x < 1"
  have one: "1 \<le> \<lfloor>1 / x\<rfloor>" using pos x by simp
  show "(2 * x, x) \<in> measure (\<lambda>x. if 1 \<le> x then nat \<lfloor>x\<rfloor> else nat \<lfloor>1 / x\<rfloor> + 1)"
  proof (cases "1 \<le> 2 * x")
    case True
    then have "\<lfloor>2 * x\<rfloor> = 1" using x by (simp add: floor_eq_iff)
    then have "nat \<lfloor>2 * x\<rfloor> < nat \<lfloor>1 / x\<rfloor> + 1" using one by linarith
    moreover have "\<not> 1 \<le> x" using x by simp
    ultimately show ?thesis using True by simp
  next
    case False
    then have "2 \<le> 1 / x" using pos by (simp add: field_simps)
    then have "\<lfloor>1 / x / 2\<rfloor> \<le> \<lfloor>1 / x - 1\<rfloor>" by (intro floor_mono) simp
    then have "\<lfloor>1 / (2 * x)\<rfloor> < \<lfloor>1 / x\<rfloor>" by (simp add: field_simps)
    moreover have "0 \<le> \<lfloor>1 / (2 * x)\<rfloor>" using pos by simp
    ultimately have "nat \<lfloor>1 / (2 * x)\<rfloor> + 1 < nat \<lfloor>1 / x\<rfloor> + 1" by linarith
    moreover have "\<not> 1 \<le> 2 * x" "\<not> 1 \<le> x" using False x by simp_all
    ultimately show ?thesis by (simp del: One_nat_def)
  qed
qed

declare binade.simps [simp del]

definition rne :: "real \<Rightarrow> int" where
  "rne y =
     (let f = \<lfloor>y\<rfloor>; r = y - of_int f
      in if r < 1 / 2 then f
         else if 1 / 2 < r then f + 1
         else if even f then f else f + 1)"

definition ulp_exponent :: "real \<Rightarrow> int" where
  "ulp_exponent x = max (binade \<bar>x\<bar> - 52) (- 1074)"

definition binary64 :: "real \<Rightarrow> real" where
  "binary64 x =
     (if x = 0 then 0
      else sgn x * (of_int (rne (\<bar>x\<bar> / 2 powi ulp_exponent x)) * 2 powi ulp_exponent x))"

subsection \<open>Break generation in binary64 arithmetic\<close>

text \<open>
  The loop of lines 334-343 once more, with every product, sum and difference rounded as
  the program rounds it: \<^verbatim>\<open>currentPage * pageHeight\<close> is one rounded product, \<^verbatim>\<open>breakY\<close> the
  rounded sum of that product and the calibration offset, and the spacing test compares
  the rounded difference \<^verbatim>\<open>breakY - lastBreakY\<close>. The page counter stays a whole number; it
  is exact in the program up to \<open>2\<^sup>5\<^sup>3\<close>.
\<close>

partial_function (option) simpleBreaks_loop64 ::
  "real \<Rightarrow> real \<Rightarrow> real \<Rightarrow> real \<Rightarrow> int \<Rightarrow> real \<Rightarrow> real list \<Rightarrow> real list option" where
  "simpleBreaks_loop64 pageHeight totalHeight calibrationOffset minBreakSpacing
       currentPage lastBreakY breaks =
     (if binary64 (of_int currentPage * pageHeight) < totalHeight then
        (let breakY = binary64 (binary64 (of_int currentPage * pageHeight) + calibrationOffset) in
         if binary64 (breakY - lastBreakY) \<ge> minBreakSpacing
         then simpleBreaks_loop64 pageHeight totalHeight calibrationOffset minBreakSpacing
                (currentPage + 1) breakY (breaks @ [breakY])
         else simpleBreaks_loop64 pageHeight totalHeight calibrationOffset minBreakSpacing
                (currentPage + 1) lastBreakY breaks)
      else Some breaks)"

definition calculateSimpleBreaks64 :: "real \<Rightarrow> real \<Rightarrow> real \<Rightarrow> real \<Rightarrow> real list option" where
  "calculateSimpleBreaks64 pageHeight totalHeight calibrationOffset minBreakSpacing =
     simpleBreaks_loop64 pageHeight totalHeight calibrationOffset minBreakSpacing 1 0 []"


subsection \<open>Settings and page geometry (\<^verbatim>\<open>getPageHeight\<close>, lines 348-363)\<close>

text \<open>
  The settings the computation reads. \<^verbatim>\<open>pageSize\<close> and \<^verbatim>\<open>orientation\<close> are strings set from
  drop-downs with exactly these options; \<^verbatim>\<open>fontFamily\<close> stays a string because
  \<^verbatim>\<open>getPageHeight\<close> has a fallback for a key that is not in the table.
\<close>

datatype page_size = A4 | Letter | Legal

datatype orientation = Portrait | Landscape

record settings =
  pageSize :: page_size
  orientation :: orientation
  marginTop :: real
  marginBottom :: real
  fontFamily :: string
  showPageNumbers :: bool
  minBreakSpacing :: real
  calibrationOffset :: real

definition DEFAULT_SETTINGS :: settings where
  "DEFAULT_SETTINGS =
     \<lparr>pageSize = A4, orientation = Portrait, marginTop = 25.4, marginBottom = 25.4,
      fontFamily = ''default'', showPageNumbers = True, minBreakSpacing = 50,
      calibrationOffset = 0\<rparr>"

record dimensions =
  width :: real
  height :: real

fun PAGE_DIMENSIONS :: "page_size \<Rightarrow> dimensions" where
  "PAGE_DIMENSIONS A4 = \<lparr>width = 210, height = 297\<rparr>"
| "PAGE_DIMENSIONS Letter = \<lparr>width = 215.9, height = 279.4\<rparr>"
| "PAGE_DIMENSIONS Legal = \<lparr>width = 215.9, height = 355.6\<rparr>"

definition FONT_METRICS :: "string \<rightharpoonup> real" where
  "FONT_METRICS =
     map_of [(''default'', 1.0), (''serif'', 1.02), (''sans-serif'', 0.98),
             (''monospace'', 1.05)]"

text \<open>
  \<^verbatim>\<open>FONT_METRICS[...] || 1.0\<close> falls back to 1.0 for a missing key and for a falsy (zero)
  entry. The three multiplications are kept in the order of the source. The table of the
  model has the four own keys of the object, which are the four options of the
  drop-down; a key that a JavaScript object inherits (\<^verbatim>\<open>toString\<close>, \<^verbatim>\<open>constructor\<close>) is found by
  the program's lookup and makes the page height \<^verbatim>\<open>NaN\<close>, which the model cannot express:
  such a font family is outside the model.
\<close>

definition getPageHeight :: "settings \<Rightarrow> real" where
  "getPageHeight s =
     (let dims = PAGE_DIMENSIONS (pageSize s);
          height0 = (if orientation s = Portrait then height dims else width dims);
          height1 = height0 - (marginTop s + marginBottom s);
          pixelsPerMm = 96 / 25.4;
          heightInPixels = height1 * pixelsPerMm;
          fontMetric = (case FONT_METRICS (fontFamily s) of
                          None \<Rightarrow> 1.0
                        | Some m \<Rightarrow> if m = 0 then 1.0 else m)
      in heightInPixels * fontMetric * 0.985)"

subsection \<open>Rendering (\<^verbatim>\<open>createBreakIndicator\<close>, \<^verbatim>\<open>renderPageBreaks\<close>, \<^verbatim>\<open>renderAdditionalBreaks\<close>)\<close>

text \<open>
  Of the indicator element the model keeps what depends on the break: its \<^verbatim>\<open>top\<close> style
  position, the attributes \<^verbatim>\<open>data-page\<close> and \<^verbatim>\<open>data-position\<close> (\<^verbatim>\<open>Math.round\<close> rounds half
  up) and the number shown in the badge \<^verbatim>\<open>Page N\<close>, present when \<^verbatim>\<open>showPageNumbers\<close> is set.
\<close>

record indicator =
  styleTop :: real
  dataPage :: int
  dataPosition :: int
  badge :: "int option"

definition createBreakIndicator :: "settings \<Rightarrow> real \<Rightarrow> int \<Rightarrow> indicator" where
  "createBreakIndicator s position pageNumber =
     \<lparr>styleTop = position, dataPage = pageNumber, dataPosition = \<lfloor>position + 1 / 2\<rfloor>,
      badge = (if showPageNumbers s then Some pageNumber else None)\<rparr>"

text \<open>
  The overlay \<^verbatim>\<open>div\<close> of one scrollable region: the height written to its style and the
  indicators appended to it.
\<close>

record container =
  styleHeight :: int
  children :: "indicator list"

definition createBreakContainer :: "int \<Rightarrow> container" where
  "createBreakContainer scrollHeight = \<lparr>styleHeight = scrollHeight, children = []\<rparr>"

definition renderPageBreaks :: "settings \<Rightarrow> container \<Rightarrow> real list \<Rightarrow> container" where
  "renderPageBreaks s c breaks =
     c\<lparr>children := children c @
          map (\<lambda>(index, breakY). createBreakIndicator s breakY (int index + 2))
            (enumerate 0 breaks)\<rparr>"

definition renderAdditionalBreaks ::
  "settings \<Rightarrow> container \<Rightarrow> real list \<Rightarrow> int \<Rightarrow> container" where
  "renderAdditionalBreaks s c breaks startingPageNumber =
     c\<lparr>children := children c @
          map (\<lambda>(index, breakY). createBreakIndicator s breakY (startingPageNumber + int index))
            (enumerate 0 breaks)\<rparr>"

subsection \<open>Plugin state, cache and update cycle\<close>

text \<open>
  A DOM element is known by its identity; its \<^verbatim>\<open>scrollHeight\<close> (an integer) is supplied by
  the host as a function. The plugin holds three \<^verbatim>\<open>Map\<close>s: \<^verbatim>\<open>breakContainers\<close> is iterated
  with \<^verbatim>\<open>forEach\<close>, so it is an association list in insertion order; \<^verbatim>\<open>calculatedBreaks\<close>
  is only looked up; of \<^verbatim>\<open>observers\<close> only the key set matters here. The console keeps the
  two messages of \<^verbatim>\<open>updatePageBreaks\<close> that tell a cache hit from a full computation.
\<close>

type_synonym element = nat

datatype log_entry = UsingCachedBreaks | CalculatingBreaks bool

record plugin =
  breakContainers :: "(element \<times> container) list"
  calculatedBreaks :: "element \<rightharpoonup> real list"
  observers :: "element set"
  console :: "log_entry list"

definition onload :: plugin where
  "onload = \<lparr>breakContainers = [], calculatedBreaks = Map.empty, observers = {},
             console = []\<rparr>"

text \<open>
  What \<^verbatim>\<open>updatePageBreaks\<close> finds in a view's content element: the editor's scroller and the
  preview pane, either of which may be absent.
\<close>

record view =
  scroller :: "element option"
  previewEl :: "element option"

text \<open>
  \<^verbatim>\<open>updatePageBreaks\<close> (lines 219-279). \<open>findTarget\<close> is its choice of the target element
  and mode (lines 226-235): the scroller if there is one, else the preview pane. The body
  sits in a \<^verbatim>\<open>try\<close>/\<^verbatim>\<open>catch\<close>; no operation of the model raises, so the only way not to
  return a state is a loop that does not end.
\<close>

definition findTarget :: "view \<Rightarrow> element option \<times> bool" where
  "findTarget v =
     (case scroller v of
        Some e \<Rightarrow> (Some e, True)
      | None \<Rightarrow> (case previewEl v of Some e \<Rightarrow> (Some e, False) | None \<Rightarrow> (None, False)))"

definition updatePageBreaks ::
  "settings \<Rightarrow> (element \<Rightarrow> int) \<Rightarrow> view \<Rightarrow> plugin \<Rightarrow> plugin option" where
  "updatePageBreaks s scrollHeight v st =
     (let (targetEl, isEditMode) = findTarget v
      in case targetEl of
           None \<Rightarrow> Some st
         | Some t \<Rightarrow>
             if calculatedBreaks st t \<noteq> None
             then Some (st\<lparr>console := console st @ [UsingCachedBreaks]\<rparr>)
             else
               (let containers1 =
                      (case map_of (breakContainers st) t of
                         Some existingContainer \<Rightarrow> AList.delete t (breakContainers st)
                       | None \<Rightarrow> breakContainers st);
                    breakContainer = createBreakContainer (scrollHeight t)
                in case calculateSimpleBreaks (getPageHeight s) (of_int (scrollHeight t))
                          (calibrationOffset s) (minBreakSpacing s) of
                     None \<Rightarrow> None
                   | Some breaks \<Rightarrow>
                       Some (st\<lparr>breakContainers :=
                                  AList.update t
                                    (if length breaks > 0
                                     then renderPageBreaks s breakContainer breaks
                                     else breakContainer)
                                    containers1,
                                calculatedBreaks := (calculatedBreaks st)(t \<mapsto> breaks),
                                observers := insert t (observers st),
                                console := console st @ [CalculatingBreaks isEditMode]\<rparr>)))"

text \<open>
  \<^verbatim>\<open>updateAllViews\<close> (lines 199-212): the cache is cleared on entry, then every leaf whose
  view has a content element is updated in turn.
\<close>

fun updateLeaves ::
  "settings \<Rightarrow> (element \<Rightarrow> int) \<Rightarrow> view option list \<Rightarrow> plugin \<Rightarrow> plugin option" where
  "updateLeaves s scrollHeight [] st = Some st"
| "updateLeaves s scrollHeight (leaf # leaves) st =
     (case leaf of
        None \<Rightarrow> updateLeaves s scrollHeight leaves st
      | Some v \<Rightarrow>
          (case updatePageBreaks s scrollHeight v st of
             None \<Rightarrow> None
           | Some st' \<Rightarrow> updateLeaves s scrollHeight leaves st'))"

definition updateAllViews ::
  "settings \<Rightarrow> (element \<Rightarrow> int) \<Rightarrow> view option list \<Rightarrow> plugin \<Rightarrow> plugin option" where
  "updateAllViews s scrollHeight leaves st =
     updateLeaves s scrollHeight leaves (st\<lparr>calculatedBreaks := Map.empty\<rparr>)"

text \<open>
  The two \<^verbatim>\<open>layout-change\<close> handlers (lines 65-71 and 93-98) clear the cache at once and
  only schedule \<^verbatim>\<open>updateAllViews\<close> for later (debounced by 500 ms, and after 200 ms). Until
  then the rendered containers stay as they are.
\<close>

definition layoutChange :: "plugin \<Rightarrow> plugin" where
  "layoutChange st = st\<lparr>calculatedBreaks := Map.empty\<rparr>"

text \<open>
  The number of full break computations a run has made, read off the console.
\<close>

definition fullComputations :: "plugin \<Rightarrow> nat" where
  "fullComputations st =
     length (filter (\<lambda>e. case e of CalculatingBreaks m \<Rightarrow> True | UsingCachedBreaks \<Rightarrow> False)
               (console st))"

text \<open>
  \<^verbatim>\<open>extendContainersIfNeeded\<close> (lines 139-169). \<open>extendContainer\<close> is the body of the
  \<^verbatim>\<open>forEach\<close> callback for one key. \<^verbatim>\<open>parseInt(container.style.height) || 0\<close> reads back the
  integer that was written there.
\<close>

definition extendContainer ::
  "settings \<Rightarrow> (element \<Rightarrow> int) \<Rightarrow> element \<Rightarrow> plugin \<Rightarrow> plugin option" where
  "extendContainer s scrollHeight targetEl st =
     (case map_of (breakContainers st) targetEl of
        None \<Rightarrow> Some st
      | Some c \<Rightarrow>
          (let currentHeight = styleHeight c;
               newHeight = scrollHeight targetEl
           in if newHeight > currentHeight + 100 then
                (let c1 = c\<lparr>styleHeight := newHeight\<rparr>;
                     pageHeight = getPageHeight s;
                     existingBreaks =
                       (case calculatedBreaks st targetEl of Some bs \<Rightarrow> bs | None \<Rightarrow> [])
                 in case createAdditionalBreaks (calibrationOffset s) (minBreakSpacing s)
                           (lastBreakPosition existingBreaks) (of_int currentHeight)
                           (of_int newHeight) pageHeight of
                      None \<Rightarrow> None
                    | Some newBreaks \<Rightarrow>
                        if length newBreaks > 0
                        then Some (st\<lparr>breakContainers :=
                                         AList.update targetEl
                                           (renderAdditionalBreaks s c1 newBreaks
                                              (int (length existingBreaks) + 2))
                                           (breakContainers st),
                                       calculatedBreaks :=
                                         (calculatedBreaks st)
                                           (targetEl \<mapsto> existingBreaks @ newBreaks)\<rparr>)
                        else Some (st\<lparr>breakContainers :=
                                         AList.update targetEl c1 (breakContainers st)\<rparr>))
              else Some st))"

fun extendEach ::
  "settings \<Rightarrow> (element \<Rightarrow> int) \<Rightarrow> element list \<Rightarrow> plugin \<Rightarrow> plugin option" where
  "extendEach s scrollHeight [] st = Some st"
| "extendEach s scrollHeight (targetEl # rest) st =
     (case extendContainer s scrollHeight targetEl st of
        None \<Rightarrow> None
      | Some st' \<Rightarrow> extendEach s scrollHeight rest st')"

definition extendContainersIfNeeded ::
  "settings \<Rightarrow> (element \<Rightarrow> int) \<Rightarrow> plugin \<Rightarrow> plugin option" where
  "extendContainersIfNeeded s scrollHeight st =
     extendEach s scrollHeight (map fst (breakContainers st)) st"

section \<open>Properties\<close>

subsection \<open>The loops return for a positive page height\<close>

lemma simpleBreaks_loop_accepted_aux:
  "0 < ph \<Longrightarrow> keep = (\<lambda>b. True) \<Longrightarrow>
   simpleBreaks_loop ph th off ms p l acc = Some (acc @ accepted_from keep ph th off ms p l)"
proof (induction keep ph th off ms p l arbitrary: acc rule: accepted_from.induct)
  case (1 keep ph bound off ms p l)
  show ?case
  proof (cases "of_int p * ph < bound")
    case False
    then show ?thesis
      by (subst simpleBreaks_loop.simps, subst accepted_from.simps) simp
  next
    case True
    show ?thesis
    proof (cases "ms \<le> of_int p * ph + off - l")
      case acc: True
      have "simpleBreaks_loop ph bound off ms (p + 1) (of_int p * ph + off)
              (acc @ [of_int p * ph + off]) =
            Some ((acc @ [of_int p * ph + off]) @
              accepted_from keep ph bound off ms (p + 1) (of_int p * ph + off))"
        using "1.IH"(1) "1.prems" True acc by simp
      then show ?thesis
        using True acc "1.prems"
        by (subst simpleBreaks_loop.simps, subst accepted_from.simps) (simp add: Let_def)
    next
      case rej: False
      have "simpleBreaks_loop ph bound off ms (p + 1) l acc =
            Some (acc @ accepted_from keep ph bound off ms (p + 1) l)"
        using "1.IH"(2) "1.prems" True rej by simp
      then show ?thesis
        using True rej "1.prems"
        by (subst simpleBreaks_loop.simps, subst accepted_from.simps) (simp add: Let_def)
    qed
  qed
qed

lemma additionalBreaks_loop_accepted_aux:
  "0 < ph \<Longrightarrow> keep = (\<lambda>b. old < b) \<Longrightarrow>
   additionalBreaks_loop ph old new off ms p l acc =
     Some (acc @ accepted_from keep ph new off ms p l)"
proof (induction keep ph new off ms p l arbitrary: acc rule: accepted_from.induct)
  case (1 keep ph bound off ms p l)
  show ?case
  proof (cases "of_int p * ph < bound")
    case False
    then show ?thesis
      by (subst additionalBreaks_loop.simps, subst accepted_from.simps) simp
  next
    case True
    show ?thesis
    proof (cases "ms \<le> of_int p * ph + off - l \<and> old < of_int p * ph + off")
      case acc: True
      have "additionalBreaks_loop ph old bound off ms (p + 1) (of_int p * ph + off)
              (acc @ [of_int p * ph + off]) =
            Some ((acc @ [of_int p * ph + off]) @
              accepted_from keep ph bound off ms (p + 1) (of_int p * ph + off))"
        using "1.IH"(1) "1.prems" True acc by simp
      then show ?thesis
        using True acc "1.prems"
        by (subst additionalBreaks_loop.simps, subst accepted_from.simps) (auto simp add: Let_def)
    next
      case rej: False
      have "additionalBreaks_loop ph old bound off ms (p + 1) l acc =
            Some (acc @ accepted_from keep ph bound off ms (p + 1) l)"
        using "1.IH"(2) "1.prems" True rej by simp
      then show ?thesis
        using True rej "1.prems"
        by (subst additionalBreaks_loop.simps, subst accepted_from.simps) (auto simp add: Let_def)
    qed
  qed
qed

lemma simpleBreaks_loop_accepted:
  "0 < ph \<Longrightarrow>
   simpleBreaks_loop ph th off ms p l acc =
     Some (acc @ accepted_from (\<lambda>b. True) ph th off ms p l)"
  by (rule simpleBreaks_loop_accepted_aux) simp_all

lemma additionalBreaks_loop_accepted:
  "0 < ph \<Longrightarrow>
   additionalBreaks_loop ph old new off ms p l acc =
     Some (acc @ accepted_from (\<lambda>b. old < b) ph new off ms p l)"
  by (rule additionalBreaks_loop_accepted_aux) simp_all

lemma calculateSimpleBreaks_accepted:
  "0 < ph \<Longrightarrow>
   calculateSimpleBreaks ph th off ms = Some (accepted_from (\<lambda>b. True) ph th off ms 1 0)"
  by (simp add: calculateSimpleBreaks_def simpleBreaks_loop_accepted)

lemma createAdditionalBreaks_accepted:
  "0 < ph \<Longrightarrow>
   createAdditionalBreaks off ms l old new ph =
     Some (accepted_from (\<lambda>b. old < b) ph new off ms (\<lfloor>l / ph\<rfloor> + 1) l)"
  by (simp add: createAdditionalBreaks_def additionalBreaks_loop_accepted)

subsection \<open>Unfolding and induction for the accepted offsets\<close>

lemma accepted_from_stop:
  "\<not> (0 < ph \<and> of_int p * ph < bound) \<Longrightarrow> accepted_from keep ph bound off ms p l = []"
  by (subst accepted_from.simps) auto

lemma accepted_from_accept:
  "0 < ph \<Longrightarrow> of_int p * ph < bound \<Longrightarrow> ms \<le> of_int p * ph + off - l \<Longrightarrow>
   keep (of_int p * ph + off) \<Longrightarrow>
   accepted_from keep ph bound off ms p l =
     (of_int p * ph + off) # accepted_from keep ph bound off ms (p + 1) (of_int p * ph + off)"
  by (subst accepted_from.simps) simp

lemma accepted_from_reject:
  "0 < ph \<Longrightarrow> of_int p * ph < bound \<Longrightarrow>
   \<not> (ms \<le> of_int p * ph + off - l \<and> keep (of_int p * ph + off)) \<Longrightarrow>
   accepted_from keep ph bound off ms p l = accepted_from keep ph bound off ms (p + 1) l"
  by (subst accepted_from.simps) auto

lemma accepted_from_induct [case_names stop accept reject]:
  assumes stop: "\<And>(keep :: real \<Rightarrow> bool) (ph :: real) bound off ms (p :: int) l.
        \<not> (0 < ph \<and> of_int p * ph < bound) \<Longrightarrow> P keep ph bound off ms p l"
    and accept: "\<And>keep ph bound off ms p l.
        0 < ph \<Longrightarrow> of_int p * ph < bound \<Longrightarrow> ms \<le> of_int p * ph + off - l \<Longrightarrow>
        keep (of_int p * ph + off) \<Longrightarrow>
        P keep ph bound off ms (p + 1) (of_int p * ph + off) \<Longrightarrow> P keep ph bound off ms p l"
    and reject: "\<And>keep ph bound off ms p l.
        0 < ph \<Longrightarrow> of_int p * ph < bound \<Longrightarrow>
        \<not> (ms \<le> of_int p * ph + off - l \<and> keep (of_int p * ph + off)) \<Longrightarrow>
        P keep ph bound off ms (p + 1) l \<Longrightarrow> P keep ph bound off ms p l"
  shows "P keep ph bound off ms (p::int) l"
proof (induction keep ph bound off ms p l rule: accepted_from.induct)
  case (1 keep ph bound off ms p l)
  show ?case
  proof (cases "0 < ph \<and> of_int p * ph < bound")
    case False
    then show ?thesis by (rule stop)
  next
    case True
    show ?thesis
    proof (cases "ms \<le> of_int p * ph + off - l \<and> keep (of_int p * ph + off)")
      case a: True
      with True "1.IH"(1) show ?thesis by - (rule accept, simp_all)
    next
      case r: False
      with True "1.IH"(2) show ?thesis by - (rule reject, simp_all)
    qed
  qed
qed

subsection \<open>Lower bounds of the accepted offsets\<close>

lemma next_page: "0 < ph \<Longrightarrow> of_int p * ph + off < of_int (p + 1) * ph + (off::real)"
  by (simp add: algebra_simps)

lemma accepted_from_lower:
  "x \<in> set (accepted_from keep ph bound off ms p l) \<Longrightarrow> of_int p * ph + off \<le> x"
proof (induction keep ph bound off ms p l rule: accepted_from_induct)
  case (stop keep ph bound off ms p l)
  then show ?case by (simp add: accepted_from_stop)
next
  case (accept keep ph bound off ms p l)
  from accept.prems accept.hyps
  have "x = of_int p * ph + off \<or>
        x \<in> set (accepted_from keep ph bound off ms (p + 1) (of_int p * ph + off))"
    by (simp add: accepted_from_accept)
  then show ?case
  proof
    assume "x = of_int p * ph + off" then show ?thesis by simp
  next
    assume "x \<in> set (accepted_from keep ph bound off ms (p + 1) (of_int p * ph + off))"
    then have "of_int (p + 1) * ph + off \<le> x" by (rule accept.IH)
    with next_page [OF accept.hyps(1), of p off] show ?thesis by linarith
  qed
next
  case (reject keep ph bound off ms p l)
  from reject.prems reject.hyps
  have "x \<in> set (accepted_from keep ph bound off ms (p + 1) l)"
    by (simp add: accepted_from_reject)
  then have "of_int (p + 1) * ph + off \<le> x" by (rule reject.IH)
  with next_page [OF reject.hyps(1), of p off] show ?case by linarith
qed


subsection \<open>Spacing against the top edge\<close>



text \<open>
  Claim C3, as amended. With page height 900, minimum spacing 1000, calibration offset 0
  and any total height above 2700, break generation returns a sequence whose first
  offset is 1800: candidate 900 is rejected against the top edge (900 - 0 < 1000),
  candidate 1800 is accepted, and candidate 2700 is rejected (2700 - 1800 = 900 < 1000).
\<close>

theorem scenario_min_spacing_1000:
  "2700 < totalHeight \<Longrightarrow>
   \<exists>rest. calculateSimpleBreaks 900 totalHeight 0 1000 = Some (1800 # rest) \<and>
          900 \<notin> set (1800 # rest) \<and> 2700 \<notin> set (1800 # rest)"
proof -
  assume th: "2700 < totalHeight"
  let ?rest = "accepted_from (\<lambda>b. True) 900 totalHeight 0 1000 4 1800"
  have 1: "accepted_from (\<lambda>b. True) 900 totalHeight 0 1000 1 0 =
           accepted_from (\<lambda>b. True) 900 totalHeight 0 1000 2 0"
    using th accepted_from_reject [of 900 1 totalHeight 1000 0 0 "\<lambda>b. True"] by simp
  have 2: "accepted_from (\<lambda>b. True) 900 totalHeight 0 1000 2 0 =
           1800 # accepted_from (\<lambda>b. True) 900 totalHeight 0 1000 3 1800"
    using th accepted_from_accept [of 900 2 totalHeight 1000 0 0 "\<lambda>b. True"] by simp
  have 3: "accepted_from (\<lambda>b. True) 900 totalHeight 0 1000 3 1800 = ?rest"
    using th accepted_from_reject [of 900 3 totalHeight 1000 0 1800 "\<lambda>b. True"] by simp
  have low: "\<forall>x \<in> set ?rest. 3600 \<le> x"
  proof
    fix x assume "x \<in> set ?rest"
    then have "of_int 4 * 900 + 0 \<le> x" by (rule accepted_from_lower)
    then show "3600 \<le> x" by simp
  qed
  have "calculateSimpleBreaks 900 totalHeight 0 1000 = Some (1800 # ?rest)"
    using calculateSimpleBreaks_accepted [of 900 totalHeight 0 1000] 1 2 3 by simp
  moreover have "900 \<notin> set (1800 # ?rest)" "2700 \<notin> set (1800 # ?rest)"
    using low by auto
  ultimately show ?thesis by blast
qed

theorem scenario_min_spacing_1000_witness:
  "(2700::real) < 4000 \<and>
   (\<exists>rest. calculateSimpleBreaks 900 4000 0 1000 = Some (1800 # rest) \<and>
          900 \<notin> set (1800 # rest) \<and> 2700 \<notin> set (1800 # rest)) \<and>
   calculateSimpleBreaks 900 4000 0 1000 = Some [1800, 3600]"
  using scenario_min_spacing_1000 [of 4000]
  by (simp add: calculateSimpleBreaks_def simpleBreaks_loop.simps)

text \<open>
  At total height 3000 the same settings give the single break 1800: the first offset is
  not 900 and 2700 is not accepted.
\<close>

theorem scenario_min_spacing_1000_counterexample:
  "calculateSimpleBreaks 900 3000 0 1000 = Some [1800] \<and> (1800::real) \<noteq> 900 \<and>
   (2700::real) \<notin> set [1800]"
  by (simp add: calculateSimpleBreaks_def simpleBreaks_loop.simps)

subsection \<open>Single-page documents\<close>

text \<open>
  Claim C8. A document no taller than one page has no breaks: for every positive page
  height, every calibration offset and every minimum spacing, if the total height is at
  most the page height, break generation returns the empty sequence.
\<close>

theorem single_page_no_breaks:
  "0 < pageHeight \<Longrightarrow> totalHeight \<le> pageHeight \<Longrightarrow>
   calculateSimpleBreaks pageHeight totalHeight calibration minSpacing = Some []"
  by (subst calculateSimpleBreaks_def, subst simpleBreaks_loop.simps) simp

theorem single_page_no_breaks_witness:
  "(0::real) < 900 \<and> (700::real) \<le> 900 \<and> calculateSimpleBreaks 900 700 0 50 = Some []"
  using single_page_no_breaks [of 900 700 0 50] by simp

subsection \<open>Page geometry\<close>

text \<open>
  Claim C6, as amended. For the configuration A4, portrait, top and bottom margin 25.4,
  default font family, calibration offset 0 and minimum spacing 50 (the default
  settings), \<^verbatim>\<open>getPageHeight\<close> returns \<open>(297 - 50.8) * 96 / 25.4 * 1.0 * 0.985\<close>, which is
  about 916.56 px (within 1 px, indeed within 0.01 px), not 914.7 px.
\<close>

theorem default_page_height:
  "getPageHeight DEFAULT_SETTINGS = (297 - 50.8) * (96 / 25.4) * 1.0 * 0.985 \<and>
   \<bar>getPageHeight DEFAULT_SETTINGS - 916.56\<bar> \<le> 1 \<and>
   \<bar>getPageHeight DEFAULT_SETTINGS - 916.56\<bar> \<le> 0.01"
  by (simp add: getPageHeight_def DEFAULT_SETTINGS_def FONT_METRICS_def Let_def)

text \<open>
  The value is more than 1 px away from 914.7.
\<close>

theorem default_page_height_counterexample:
  "\<not> \<bar>getPageHeight DEFAULT_SETTINGS - 914.7\<bar> \<le> 1"
  by (simp add: getPageHeight_def DEFAULT_SETTINGS_def FONT_METRICS_def Let_def)

subsection \<open>Non-positive page height\<close>

text \<open>
  \<^verbatim>\<open>getPageHeight\<close> has no lower bound and the loop no guard: with a page height of zero
  or less and a positive total height the loop test \<^verbatim>\<open>currentPage * pageHeight < totalHeight\<close>
  stays true for every page, so the loop does not end.
\<close>

lemma simpleBreaks_loop_diverges_aux:
  assumes "simpleBreaks_loop ph th off ms p l acc = Some r"
  shows "\<not> (ph \<le> 0 \<and> 0 < th \<and> 1 \<le> p)"
proof (rule simpleBreaks_loop.raw_induct
    [where P = "\<lambda>ph th off ms p l acc r. \<not> (ph \<le> 0 \<and> 0 < th \<and> 1 \<le> p)", OF _ assms],
    goal_cases)
  case (1 loop ph th off ms p l acc r)
  note ih = "1"(1) and body = "1"(2)
  show ?case
  proof
    assume a: "ph \<le> 0 \<and> 0 < th \<and> 1 \<le> p"
    then have "of_int p * ph \<le> 0" by (simp add: mult_nonneg_nonpos)
    with a have c: "of_int p * ph < th" by simp
    from a have n: "ph \<le> 0 \<and> 0 < th \<and> 1 \<le> p + 1" by simp
    show False
    proof (cases "ms \<le> of_int p * ph + off - l")
      case True
      with c body have "loop ph th off ms (p + 1) (of_int p * ph + off) (acc @ [of_int p * ph + off]) = Some r"
        by (simp add: Let_def)
      then have "\<not> (ph \<le> 0 \<and> 0 < th \<and> 1 \<le> p + 1)" by (rule ih)
      with n show False by simp
    next
      case False
      with c body have "loop ph th off ms (p + 1) l acc = Some r"
        by (simp add: Let_def)
      then have "\<not> (ph \<le> 0 \<and> 0 < th \<and> 1 \<le> p + 1)" by (rule ih)
      with n show False by simp
    qed
  qed
qed

lemma calculateSimpleBreaks_diverges:
  "pageHeight \<le> 0 \<Longrightarrow> 0 < totalHeight \<Longrightarrow>
   calculateSimpleBreaks pageHeight totalHeight calibration minSpacing = None"
proof -
  assume a: "pageHeight \<le> 0" "0 < totalHeight"
  show ?thesis
  proof (cases "calculateSimpleBreaks pageHeight totalHeight calibration minSpacing")
    case None then show ?thesis .
  next
    case (Some r)
    then have "simpleBreaks_loop pageHeight totalHeight calibration minSpacing 1 0 [] = Some r"
      by (simp add: calculateSimpleBreaks_def)
    then have "\<not> (pageHeight \<le> 0 \<and> 0 < totalHeight \<and> (1::int) \<le> 1)"
      by (rule simpleBreaks_loop_diverges_aux)
    with a show ?thesis by simp
  qed
qed

text \<open>
  Claim C4 asks that a configuration whose margins consume the page height skips the
  break computation, renders nothing and throws nothing. The code does not do that. With
  A4 portrait and margins 150 + 150 mm (accepted by the settings tab, which only checks
  \<open>\<ge> 0\<close>) the page height is negative, and for a container of height 1000 neither
  \<^verbatim>\<open>updatePageBreaks\<close> nor \<^verbatim>\<open>updateAllViews\<close> returns: the update cycle hangs.
\<close>

theorem oversized_margins_update_never_returns:
  "getPageHeight (DEFAULT_SETTINGS\<lparr>marginTop := 150, marginBottom := 150\<rparr>) < 0 \<and>
   updatePageBreaks (DEFAULT_SETTINGS\<lparr>marginTop := 150, marginBottom := 150\<rparr>)
     (\<lambda>e. 1000) \<lparr>scroller = Some 0, previewEl = None\<rparr> onload = None \<and>
   updateAllViews (DEFAULT_SETTINGS\<lparr>marginTop := 150, marginBottom := 150\<rparr>)
     (\<lambda>e. 1000) [Some \<lparr>scroller = Some 0, previewEl = None\<rparr>] onload = None"
proof -
  let ?s = "DEFAULT_SETTINGS\<lparr>marginTop := 150, marginBottom := 150\<rparr>"
  have ph: "getPageHeight ?s < 0"
    by (simp add: getPageHeight_def DEFAULT_SETTINGS_def FONT_METRICS_def Let_def)
  then have "calculateSimpleBreaks (getPageHeight ?s) (of_int 1000) (calibrationOffset ?s)
               (minBreakSpacing ?s) = None"
    by (intro calculateSimpleBreaks_diverges) simp_all
  then have u: "updatePageBreaks ?s (\<lambda>e. 1000) \<lparr>scroller = Some 0, previewEl = None\<rparr> st = None"
    if "calculatedBreaks st 0 = None" for st
    using that by (simp add: updatePageBreaks_def findTarget_def Let_def)
  have "updatePageBreaks ?s (\<lambda>e. 1000) \<lparr>scroller = Some 0, previewEl = None\<rparr> onload = None"
    by (rule u) (simp add: onload_def)
  moreover have "updateAllViews ?s (\<lambda>e. 1000) [Some \<lparr>scroller = Some 0, previewEl = None\<rparr>] onload = None"
    by (simp add: updateAllViews_def u)
  ultimately show ?thesis using ph by simp
qed

subsection \<open>Cache behaviour\<close>

lemma updatePageBreaks_cached:
  assumes "calculatedBreaks st t = Some breaks" and "fst (findTarget v) = Some t"
  shows "updatePageBreaks s sh v st = Some (st\<lparr>console := console st @ [UsingCachedBreaks]\<rparr>)"
  using assms by (cases "findTarget v") (simp add: updatePageBreaks_def)

lemma updatePageBreaks_cache_only:
  assumes "calculatedBreaks a = calculatedBreaks b"
  shows "rel_option (\<lambda>a' b'. calculatedBreaks a' = calculatedBreaks b')
           (updatePageBreaks s sh v a) (updatePageBreaks s sh v b)"
proof (cases "findTarget v")
  case (Pair targetEl isEditMode)
  show ?thesis
  proof (cases targetEl)
    case None
    with Pair assms show ?thesis by (simp add: updatePageBreaks_def)
  next
    case (Some t)
    show ?thesis
    proof (cases "calculatedBreaks a t")
      case c: (Some bs)
      with Pair Some assms show ?thesis by (simp add: updatePageBreaks_def)
    next
      case n: None
      with assms have nb: "calculatedBreaks b t = None" by simp
      show ?thesis
      proof (cases "calculateSimpleBreaks (getPageHeight s) (of_int (sh t))
                      (calibrationOffset s) (minBreakSpacing s)")
        case None
        with Pair Some n nb show ?thesis by (simp add: updatePageBreaks_def Let_def)
      next
        case r: (Some breaks)
        with Pair Some n nb assms show ?thesis by (simp add: updatePageBreaks_def Let_def)
      qed
    qed
  qed
qed

lemma updateLeaves_cache_only:
  "calculatedBreaks a = calculatedBreaks b \<Longrightarrow>
   rel_option (\<lambda>a' b'. calculatedBreaks a' = calculatedBreaks b')
     (updateLeaves s sh leaves a) (updateLeaves s sh leaves b)"
proof (induction leaves arbitrary: a b)
  case Nil
  then show ?case by simp
next
  case (Cons leaf leaves)
  show ?case
  proof (cases leaf)
    case None
    with Cons show ?thesis by simp
  next
    case (Some v)
    have "rel_option (\<lambda>a' b'. calculatedBreaks a' = calculatedBreaks b')
            (updatePageBreaks s sh v a) (updatePageBreaks s sh v b)"
      using Cons.prems by (rule updatePageBreaks_cache_only)
    then show ?thesis
    proof (cases rule: option.rel_cases)
      case None
      with Some show ?thesis by simp
    next
      case (Some a' b')
      with \<open>leaf = Some v\<close> Cons.IH [of a' b'] show ?thesis by simp
    qed
  qed
qed

lemma updatePageBreaks_computations:
  assumes "updatePageBreaks s sh v a = Some a'"
  shows "fullComputations a \<le> fullComputations a'"
    and "fst (findTarget v) = Some t \<Longrightarrow> calculatedBreaks a t = None \<Longrightarrow>
         fullComputations a' = fullComputations a + 1"
    and "fst (findTarget v) \<noteq> Some t \<Longrightarrow> calculatedBreaks a' t = calculatedBreaks a t"
proof -
  obtain targetEl isEditMode where ft: "findTarget v = (targetEl, isEditMode)"
    by (cases "findTarget v")
  show "fullComputations a \<le> fullComputations a'"
    using assms ft
    by (auto simp add: updatePageBreaks_def fullComputations_def Let_def
        split: option.splits if_splits)
  show "fullComputations a' = fullComputations a + 1"
    if "fst (findTarget v) = Some t" "calculatedBreaks a t = None"
    using assms ft that
    by (auto simp add: updatePageBreaks_def fullComputations_def Let_def
        split: option.splits if_splits)
  show "calculatedBreaks a' t = calculatedBreaks a t" if "fst (findTarget v) \<noteq> Some t"
    using assms ft that
    by (auto simp add: updatePageBreaks_def Let_def split: option.splits if_splits)
qed

lemma updateLeaves_computations_mono:
  "updateLeaves s sh leaves a = Some b \<Longrightarrow> fullComputations a \<le> fullComputations b"
proof (induction leaves arbitrary: a)
  case Nil
  then show ?case by simp
next
  case (Cons leaf leaves)
  show ?case
  proof (cases leaf)
    case None
    with Cons show ?thesis by simp
  next
    case (Some v)
    with Cons.prems obtain a' where
      u: "updatePageBreaks s sh v a = Some a'" and r: "updateLeaves s sh leaves a' = Some b"
      by (auto split: option.splits)
    from u have "fullComputations a \<le> fullComputations a'"
      by (rule updatePageBreaks_computations(1))
    also from r have "\<dots> \<le> fullComputations b" by (rule Cons.IH)
    finally show ?thesis .
  qed
qed

lemma updateLeaves_computes_uncached:
  "updateLeaves s sh leaves a = Some b \<Longrightarrow> Some v \<in> set leaves \<Longrightarrow>
   fst (findTarget v) = Some t \<Longrightarrow> calculatedBreaks a t = None \<Longrightarrow>
   fullComputations a < fullComputations b"
proof (induction leaves arbitrary: a)
  case Nil
  then show ?case by simp
next
  case (Cons leaf leaves)
  show ?case
  proof (cases leaf)
    case None
    with Cons.prems have "updateLeaves s sh leaves a = Some b" "Some v \<in> set leaves"
      by simp_all
    then show ?thesis using Cons.prems(3,4) by (rule Cons.IH)
  next
    case (Some w)
    with Cons.prems(1) obtain a' where
      u: "updatePageBreaks s sh w a = Some a'" and r: "updateLeaves s sh leaves a' = Some b"
      by (auto split: option.splits)
    from r have mono: "fullComputations a' \<le> fullComputations b"
      by (rule updateLeaves_computations_mono)
    show ?thesis
    proof (cases "fst (findTarget w) = Some t")
      case True
      then have "fullComputations a' = fullComputations a + 1"
        using Cons.prems(4) by (rule updatePageBreaks_computations(2) [OF u])
      with mono show ?thesis by simp
    next
      case False
      then have c: "calculatedBreaks a' t = None"
        using updatePageBreaks_computations(3) [OF u] Cons.prems(4) by simp
      from False Cons.prems(3) have "w \<noteq> v" by auto
      with Cons.prems(2) Some have "Some v \<in> set leaves" by simp
      with r have "fullComputations a' < fullComputations b"
        using Cons.prems(3) c by (rule Cons.IH)
      moreover from u have "fullComputations a \<le> fullComputations a'"
        by (rule updatePageBreaks_computations(1))
      ultimately show ?thesis by simp
    qed
  qed
qed


text \<open>
  Claim C2, as amended. A request served by \<^verbatim>\<open>updatePageBreaks\<close> for a container whose
  sequence is in the cache is a no-op: it returns, leaves cache and rendered containers
  as they are and makes no full break computation. \<^verbatim>\<open>updateAllViews\<close>, the entry point of
  every update request, clears the cache first; two consecutive \<^verbatim>\<open>updateAllViews\<close>
  requests with the same settings, heights and leaves still end with identical cached
  sequences, but the second one computes them again: it makes at least one more full
  computation as soon as one leaf has a target element.
\<close>

theorem cached_update_is_noop:
  "(calculatedBreaks st t = Some breaks \<and> fst (findTarget v) = Some t \<longrightarrow>
      (\<exists>st'. updatePageBreaks s sh v st = Some st' \<and>
             calculatedBreaks st' = calculatedBreaks st \<and>
             breakContainers st' = breakContainers st \<and>
             fullComputations st' = fullComputations st)) \<and>
   (updateAllViews s sh leaves st0 = Some st1 \<longrightarrow>
      (\<exists>st2. updateAllViews s sh leaves st1 = Some st2 \<and>
             calculatedBreaks st2 = calculatedBreaks st1 \<and>
             (Some w \<in> set leaves \<and> fst (findTarget w) \<noteq> None \<longrightarrow>
                fullComputations st1 < fullComputations st2)))"
proof (intro conjI impI)
  assume "calculatedBreaks st t = Some breaks \<and> fst (findTarget v) = Some t"
  then have "updatePageBreaks s sh v st = Some (st\<lparr>console := console st @ [UsingCachedBreaks]\<rparr>)"
    using updatePageBreaks_cached [of st t breaks v s sh] by simp
  then show "\<exists>st'. updatePageBreaks s sh v st = Some st' \<and>
             calculatedBreaks st' = calculatedBreaks st \<and>
             breakContainers st' = breakContainers st \<and>
             fullComputations st' = fullComputations st"
    by (simp add: fullComputations_def)
next
  assume r: "updateAllViews s sh leaves st0 = Some st1"
  have "rel_option (\<lambda>a' b'. calculatedBreaks a' = calculatedBreaks b')
          (updateLeaves s sh leaves (st0\<lparr>calculatedBreaks := Map.empty\<rparr>))
          (updateLeaves s sh leaves (st1\<lparr>calculatedBreaks := Map.empty\<rparr>))"
    by (rule updateLeaves_cache_only) simp
  with r obtain st2 where
    2: "updateAllViews s sh leaves st1 = Some st2" "calculatedBreaks st2 = calculatedBreaks st1"
    by (auto simp add: updateAllViews_def elim: option.rel_cases)
  have "fullComputations st1 < fullComputations st2"
    if w: "Some w \<in> set leaves \<and> fst (findTarget w) \<noteq> None"
  proof -
    from w obtain t where t: "fst (findTarget w) = Some t" by auto
    have "fullComputations (st1\<lparr>calculatedBreaks := Map.empty\<rparr>) < fullComputations st2"
      using 2(1) w t
      by (intro updateLeaves_computes_uncached [where v = w and t = t])
         (simp_all add: updateAllViews_def)
    then show ?thesis by (simp add: fullComputations_def)
  qed
  with 2 show "\<exists>st2. updateAllViews s sh leaves st1 = Some st2 \<and>
             calculatedBreaks st2 = calculatedBreaks st1 \<and>
             (Some w \<in> set leaves \<and> fst (findTarget w) \<noteq> None \<longrightarrow>
                fullComputations st1 < fullComputations st2)"
    by blast
qed

lemmas eval_defs = updateAllViews_def updatePageBreaks_def findTarget_def onload_def
  getPageHeight_def DEFAULT_SETTINGS_def FONT_METRICS_def Let_def calculateSimpleBreaks_def
  simpleBreaks_loop.simps createBreakContainer_def renderPageBreaks_def
  createBreakIndicator_def fullComputations_def

theorem cached_update_is_noop_witness:
  "let s = DEFAULT_SETTINGS;
       v = \<lparr>scroller = Some 0, previewEl = None\<rparr>;
       breaks = [2910084 / 3175, 5820168 / 3175];
       st1 = \<lparr>breakContainers =
                [(0, \<lparr>styleHeight = 2000,
                      children =
                        [\<lparr>styleTop = 2910084 / 3175, dataPage = 2, dataPosition = 917,
                          badge = Some 2\<rparr>,
                         \<lparr>styleTop = 5820168 / 3175, dataPage = 3, dataPosition = 1833,
                          badge = Some 3\<rparr>]\<rparr>)],
              calculatedBreaks = [0 \<mapsto> breaks], observers = {0},
              console = [CalculatingBreaks True]\<rparr>
   in calculatedBreaks st1 0 = Some breaks \<and> fst (findTarget v) = Some 0 \<and>
      updatePageBreaks s (\<lambda>e. 2000) v st1 =
        Some (st1\<lparr>console := [CalculatingBreaks True, UsingCachedBreaks]\<rparr>) \<and>
      updateAllViews s (\<lambda>e. 2000) [Some v] onload = Some st1 \<and>
      Some v \<in> set [Some v] \<and> fst (findTarget v) \<noteq> None \<and>
      (\<exists>st2. updateAllViews s (\<lambda>e. 2000) [Some v] st1 = Some st2 \<and>
             calculatedBreaks st2 = calculatedBreaks st1 \<and>
             fullComputations st1 < fullComputations st2)"
  using cached_update_is_noop
    [where st = "\<lparr>breakContainers =
                [(0, \<lparr>styleHeight = 2000,
                      children =
                        [\<lparr>styleTop = 2910084 / 3175, dataPage = 2, dataPosition = 917,
                          badge = Some 2\<rparr>,
                         \<lparr>styleTop = 5820168 / 3175, dataPage = 3, dataPosition = 1833,
                          badge = Some 3\<rparr>]\<rparr>)],
              calculatedBreaks = [0 \<mapsto> [2910084 / 3175, 5820168 / 3175]], observers = {0},
              console = [CalculatingBreaks True]\<rparr>"
      and t = 0 and breaks = "[2910084 / 3175, 5820168 / 3175]"
      and v = "\<lparr>scroller = Some 0, previewEl = None\<rparr>" and s = DEFAULT_SETTINGS
      and sh = "\<lambda>e. 2000" and leaves = "[Some \<lparr>scroller = Some 0, previewEl = None\<rparr>]"
      and w = "\<lparr>scroller = Some 0, previewEl = None\<rparr>"
      and ?st0.0 = onload
      and ?st1.0 = "\<lparr>breakContainers =
                [(0, \<lparr>styleHeight = 2000,
                      children =
                        [\<lparr>styleTop = 2910084 / 3175, dataPage = 2, dataPosition = 917,
                          badge = Some 2\<rparr>,
                         \<lparr>styleTop = 5820168 / 3175, dataPage = 3, dataPosition = 1833,
                          badge = Some 3\<rparr>]\<rparr>)],
              calculatedBreaks = [0 \<mapsto> [2910084 / 3175, 5820168 / 3175]], observers = {0},
              console = [CalculatingBreaks True]\<rparr>"]
  by (simp add: eval_defs)

text \<open>
  Two consecutive \<^verbatim>\<open>updateAllViews\<close> requests on one view, nothing in between: one full
  computation after the first, two after the second.
\<close>

theorem second_update_recomputes:
  "map_option fullComputations
     (updateAllViews DEFAULT_SETTINGS (\<lambda>e. 2000)
        [Some \<lparr>scroller = Some 0, previewEl = None\<rparr>] onload) = Some 1 \<and>
   map_option fullComputations
     (Option.bind
        (updateAllViews DEFAULT_SETTINGS (\<lambda>e. 2000)
           [Some \<lparr>scroller = Some 0, previewEl = None\<rparr>] onload)
        (updateAllViews DEFAULT_SETTINGS (\<lambda>e. 2000)
           [Some \<lparr>scroller = Some 0, previewEl = None\<rparr>])) = Some 2"
  by (simp add: eval_defs)

subsection \<open>Page numbers\<close>

lemma children_renderAdditionalBreaks:
  "children (renderAdditionalBreaks s c breaks n) =
     children c @ map (\<lambda>(index, breakY). createBreakIndicator s breakY (n + int index))
                    (enumerate 0 breaks)"
  by (simp add: renderAdditionalBreaks_def)

lemma dataPage_numbered:
  "map dataPage (map (\<lambda>(index, breakY). createBreakIndicator s breakY (n + int index))
                   (enumerate k breaks)) =
   map (\<lambda>i. n + int i) [k..<k + length breaks]"
proof (induction breaks arbitrary: k)
  case Nil
  then show ?case by simp
next
  case (Cons b bs)
  have "[k..<k + length (b # bs)] = k # [Suc k..<Suc k + length bs]"
    by (simp add: upt_rec)
  with Cons [of "Suc k"] show ?case
    by (simp add: createBreakIndicator_def)
qed

lemma styleTop_numbered:
  "map styleTop (map (\<lambda>(index, breakY). createBreakIndicator s breakY (n + int index))
                   (enumerate k breaks)) = breaks"
  by (induction breaks arbitrary: k) (simp_all add: createBreakIndicator_def)

lemma renderPageBreaks_as_additional:
  "renderPageBreaks s c breaks = renderAdditionalBreaks s c breaks 2"
  by (simp add: renderPageBreaks_def renderAdditionalBreaks_def add.commute)

lemma enumerate_shift:
  "map (\<lambda>(index, breakY). createBreakIndicator s breakY (n + int index)) (enumerate k xs) =
   map (\<lambda>(index, breakY). createBreakIndicator s breakY (n + int k + int index)) (enumerate 0 xs)"
  by (simp add: list_eq_iff_nth_eq nth_enumerate_eq add.assoc)

lemma renderAdditionalBreaks_append:
  "renderAdditionalBreaks s (renderAdditionalBreaks s c existing n) additional
     (int (length existing) + n) =
   renderAdditionalBreaks s c (existing @ additional) n"
  by (simp add: renderAdditionalBreaks_def enumerate_append_eq
      enumerate_shift [of s n "length existing" additional] add.commute)

lemma renderAdditionalBreaks_styleHeight_children:
  "children (renderAdditionalBreaks s (c\<lparr>styleHeight := h\<rparr>) breaks n) =
   children (renderAdditionalBreaks s c breaks n)"
  by (simp add: renderAdditionalBreaks_def)

text \<open>
  Page numbers are positional where the cache is in step with the rendered container.
  \<^verbatim>\<open>renderPageBreaks\<close> gives the N-th offset (counting from 1) the number N + 1, starting at
  2, at the position of that offset. Rendering additional breaks with starting number
  \<open>length existing + 2\<close> after the existing ones is the same as rendering the combined
  sequence. And if the cache holds the sequence a container shows, numbered in this way,
  then after an extension step the container shows the new cached sequence, the old one
  followed by the additional breaks, numbered in this way.
\<close>

lemma positional_numbering:
  "map dataPage (children (renderPageBreaks s (createBreakContainer h) breaks)) =
     map (\<lambda>n. int n + 2) [0..<length breaks] \<and>
   map styleTop (children (renderPageBreaks s (createBreakContainer h) breaks)) = breaks \<and>
   renderAdditionalBreaks s (renderPageBreaks s c existing) additional
     (int (length existing) + 2) = renderPageBreaks s c (existing @ additional) \<and>
   (map_of (breakContainers st) t = Some c0 \<and> calculatedBreaks st t = Some existing \<and>
    children c0 = children (renderPageBreaks s (createBreakContainer h) existing) \<and>
    extendContainer s sh t st = Some st' \<longrightarrow>
      (\<exists>c' additional. map_of (breakContainers st') t = Some c' \<and>
         calculatedBreaks st' t = Some (existing @ additional) \<and>
         children c' =
           children (renderPageBreaks s (createBreakContainer h) (existing @ additional))))"
proof (intro conjI impI)
  show "map dataPage (children (renderPageBreaks s (createBreakContainer h) breaks)) =
     map (\<lambda>n. int n + 2) [0..<length breaks]"
    using dataPage_numbered [of s 2 0 breaks]
    by (simp add: renderPageBreaks_as_additional children_renderAdditionalBreaks
        createBreakContainer_def add.commute)
  show "map styleTop (children (renderPageBreaks s (createBreakContainer h) breaks)) = breaks"
    using styleTop_numbered [of s 2 0 breaks]
    by (simp add: renderPageBreaks_as_additional children_renderAdditionalBreaks
        createBreakContainer_def)
  show app: "renderAdditionalBreaks s (renderPageBreaks s c existing) additional
     (int (length existing) + 2) = renderPageBreaks s c (existing @ additional)" for c additional
    by (simp add: renderPageBreaks_as_additional renderAdditionalBreaks_append)
  assume "map_of (breakContainers st) t = Some c0 \<and> calculatedBreaks st t = Some existing \<and>
    children c0 = children (renderPageBreaks s (createBreakContainer h) existing) \<and>
    extendContainer s sh t st = Some st'"
  then have a: "map_of (breakContainers st) t = Some c0" "calculatedBreaks st t = Some existing"
    "children c0 = children (renderPageBreaks s (createBreakContainer h) existing)"
    "extendContainer s sh t st = Some st'"
    by simp_all
  let ?goal = "\<exists>c' additional. map_of (breakContainers st') t = Some c' \<and>
         calculatedBreaks st' t = Some (existing @ additional) \<and>
         children c' =
           children (renderPageBreaks s (createBreakContainer h) (existing @ additional))"
  show ?goal
  proof (cases "sh t > styleHeight c0 + 100")
    case False
    with a have "st' = st" by (simp add: extendContainer_def Let_def)
    with a have "map_of (breakContainers st') t = Some c0 \<and>
         calculatedBreaks st' t = Some (existing @ []) \<and>
         children c0 =
           children (renderPageBreaks s (createBreakContainer h) (existing @ []))"
      by simp
    then show ?thesis by blast
  next
    case True
    let ?c1 = "c0\<lparr>styleHeight := sh t\<rparr>"
    from a True obtain newBreaks where
      nb: "createAdditionalBreaks (calibrationOffset s) (minBreakSpacing s)
             (lastBreakPosition existing) (of_int (styleHeight c0)) (of_int (sh t))
             (getPageHeight s) = Some newBreaks"
      by (cases "createAdditionalBreaks (calibrationOffset s) (minBreakSpacing s)
             (lastBreakPosition existing) (of_int (styleHeight c0)) (of_int (sh t))
             (getPageHeight s)") (simp_all add: extendContainer_def Let_def)
    show ?thesis
    proof (cases "newBreaks = []")
      case e: True
      with a True nb have "st' = st\<lparr>breakContainers := AList.update t ?c1 (breakContainers st)\<rparr>"
        by (simp add: extendContainer_def Let_def)
      with a have "map_of (breakContainers st') t = Some ?c1 \<and>
         calculatedBreaks st' t = Some (existing @ []) \<and>
         children ?c1 =
           children (renderPageBreaks s (createBreakContainer h) (existing @ []))"
        by (simp add: update_conv')
      then show ?thesis by blast
    next
      case ne: False
      let ?c2 = "renderAdditionalBreaks s ?c1 newBreaks (int (length existing) + 2)"
      from ne a True nb have "st' = st\<lparr>breakContainers := AList.update t ?c2 (breakContainers st),
             calculatedBreaks := (calculatedBreaks st)(t \<mapsto> existing @ newBreaks)\<rparr>"
        by (simp add: extendContainer_def Let_def)
      then have 1: "map_of (breakContainers st') t = Some ?c2"
        and 2: "calculatedBreaks st' t = Some (existing @ newBreaks)"
        by (simp_all add: update_conv')
      have "children ?c2 =
            children c0 @ map (\<lambda>(index, breakY). createBreakIndicator s breakY
                                 (int (length existing) + 2 + int index)) (enumerate 0 newBreaks)"
        by (simp add: children_renderAdditionalBreaks)
      also have "\<dots> = children (renderAdditionalBreaks s
                (renderPageBreaks s (createBreakContainer h) existing) newBreaks
                (int (length existing) + 2))"
        using a by (simp add: children_renderAdditionalBreaks)
      also have "\<dots> = children (renderPageBreaks s (createBreakContainer h) (existing @ newBreaks))"
        by (simp only: app)
      finally have "children ?c2 =
         children (renderPageBreaks s (createBreakContainer h) (existing @ newBreaks))" .
      with 1 2 show ?thesis by blast
    qed
  qed
qed

lemmas extend_defs = extendContainersIfNeeded_def extendContainer_def createAdditionalBreaks_def
  additionalBreaks_loop.simps lastBreakPosition_def renderAdditionalBreaks_def

text \<open>
  Claim C9 says that the breaks appended by an extension continue the numbering of the
  ones already shown. The code passes \<^verbatim>\<open>existingBreaks.length + 2\<close>, taken from the cache, and
  misses the case of a cache that a \<^verbatim>\<open>layout-change\<close> has just cleared while the container
  still shows its breaks: the cached sequence then counts as empty (\<^verbatim>\<open>|| []\<close>, line 151).
  With the default settings, a view of height 2000 shows pages 2 and 3; after a
  \<^verbatim>\<open>layout-change\<close> and growth to 3000 the appended break is numbered 2 again, where without
  the \<^verbatim>\<open>layout-change\<close> it is numbered 4.
\<close>

theorem extension_after_layout_change_renumbers:
  "map_option (\<lambda>st. map (\<lambda>(t, c). map dataPage (children c)) (breakContainers st))
     (Option.bind
        (map_option layoutChange
           (updateAllViews DEFAULT_SETTINGS (\<lambda>e. 2000)
              [Some \<lparr>scroller = Some 0, previewEl = None\<rparr>] onload))
        (extendContainersIfNeeded DEFAULT_SETTINGS (\<lambda>e. 3000)))
     = Some [[2, 3, 2]] \<and>
   map_option (\<lambda>st. map (\<lambda>(t, c). map dataPage (children c)) (breakContainers st))
     (Option.bind
        (updateAllViews DEFAULT_SETTINGS (\<lambda>e. 2000)
           [Some \<lparr>scroller = Some 0, previewEl = None\<rparr>] onload)
        (extendContainersIfNeeded DEFAULT_SETTINGS (\<lambda>e. 3000)))
     = Some [[2, 3, 4]]"
  by (simp add: eval_defs extend_defs layoutChange_def)

subsection \<open>Extension against full generation\<close>

text \<open>
  Claim C1 says that generating on the old height and extending to the new height gives
  what full generation on the new height gives. The extender misses a break whose page
  boundary lies at or above the old height while its offset does not lie strictly above
  it: the loop of \<^verbatim>\<open>calculateSimpleBreaks\<close> stops on \<^verbatim>\<open>currentPage * pageHeight\<close>, the test
  \<^verbatim>\<open>breakY > oldHeight\<close> of \<^verbatim>\<open>createAdditionalBreaks\<close> is on the offset with the calibration
  added. With the default settings and calibration offset -10, a view that grows from
  1826 to 1940 keeps its one break, while full generation at 1940 has two; a further
  extension to 3000 adds the break of page 3 and still lacks the one of page 2.
\<close>

theorem extension_drops_break:
  "calculateSimpleBreaks (getPageHeight (DEFAULT_SETTINGS\<lparr>calibrationOffset := - 10\<rparr>))
     1826 (- 10) 50 = Some [2878334 / 3175] \<and>
   createAdditionalBreaks (- 10) 50 (lastBreakPosition [2878334 / 3175]) 1826 1940
     (getPageHeight (DEFAULT_SETTINGS\<lparr>calibrationOffset := - 10\<rparr>)) = Some [] \<and>
   calculateSimpleBreaks (getPageHeight (DEFAULT_SETTINGS\<lparr>calibrationOffset := - 10\<rparr>))
     1940 (- 10) 50 = Some [2878334 / 3175, 5788418 / 3175] \<and>
   map_option (\<lambda>st. calculatedBreaks st 0)
     (Option.bind
        (updateAllViews (DEFAULT_SETTINGS\<lparr>calibrationOffset := - 10\<rparr>) (\<lambda>e. 1826)
           [Some \<lparr>scroller = Some 0, previewEl = None\<rparr>] onload)
        (extendContainersIfNeeded (DEFAULT_SETTINGS\<lparr>calibrationOffset := - 10\<rparr>)
           (\<lambda>e. 1940))) = Some (Some [2878334 / 3175]) \<and>
   map_option (\<lambda>st. calculatedBreaks st 0)
     (updateAllViews (DEFAULT_SETTINGS\<lparr>calibrationOffset := - 10\<rparr>) (\<lambda>e. 1940)
        [Some \<lparr>scroller = Some 0, previewEl = None\<rparr>] onload)
     = Some (Some [2878334 / 3175, 5788418 / 3175]) \<and>
   map_option (\<lambda>st. calculatedBreaks st 0)
     (Option.bind
        (Option.bind
           (updateAllViews (DEFAULT_SETTINGS\<lparr>calibrationOffset := - 10\<rparr>) (\<lambda>e. 1826)
              [Some \<lparr>scroller = Some 0, previewEl = None\<rparr>] onload)
           (extendContainersIfNeeded (DEFAULT_SETTINGS\<lparr>calibrationOffset := - 10\<rparr>)
              (\<lambda>e. 1940)))
        (extendContainersIfNeeded (DEFAULT_SETTINGS\<lparr>calibrationOffset := - 10\<rparr>)
           (\<lambda>e. 3000))) = Some (Some [2878334 / 3175, 8698502 / 3175])"
  by (simp add: eval_defs extend_defs)

text \<open>
  The same test drops the break on the boundary when the calibration offset is 0 and
  the old height is a whole number of pages.
\<close>

lemma extension_drops_boundary_break:
  "calculateSimpleBreaks 900 1800 0 50 = Some [900] \<and>
   createAdditionalBreaks 0 50 (lastBreakPosition [900]) 1800 3000 900 = Some [2700] \<and>
   calculateSimpleBreaks 900 3000 0 50 = Some [900, 1800, 2700] \<and>
   [900, 1800, 2700] \<noteq> [900] @ [2700 :: real]"
  by (simp add: calculateSimpleBreaks_def simpleBreaks_loop.simps createAdditionalBreaks_def
      additionalBreaks_loop.simps lastBreakPosition_def)

text \<open>
  Two more inputs on which extension and full generation differ: a negative offset at
  other heights, and an offset of a page height or more, where
  \<^verbatim>\<open>Math.floor(lastBreak / pageHeight) + 1\<close> skips pages.
\<close>

lemma extension_negative_offset_differs:
  "calculateSimpleBreaks 900 1800 (-10) 50 = Some [890] \<and>
   createAdditionalBreaks (-10) 50 (lastBreakPosition [890]) 1800 3000 900 = Some [2690] \<and>
   calculateSimpleBreaks 900 3000 (-10) 50 = Some [890, 1790, 2690]"
  by (simp add: calculateSimpleBreaks_def simpleBreaks_loop.simps createAdditionalBreaks_def
      additionalBreaks_loop.simps lastBreakPosition_def)

lemma extension_large_offset_differs:
  "calculateSimpleBreaks 900 2000 1000 50 = Some [1900, 2800] \<and>
   createAdditionalBreaks 1000 50 (lastBreakPosition [1900, 2800]) 2000 3000 900 = Some [] \<and>
   calculateSimpleBreaks 900 3000 1000 50 = Some [1900, 2800, 3700]"
  by (simp add: calculateSimpleBreaks_def simpleBreaks_loop.simps createAdditionalBreaks_def
      additionalBreaks_loop.simps lastBreakPosition_def)

section \<open>Properties in binary64 arithmetic\<close>

subsection \<open>Binades and rounding to a whole number\<close>

lemma powi_eval:
  "(x::real) powi k = (if 0 \<le> k then x ^ nat k else 1 / x ^ nat (- k))"
  by (simp add: power_int_def field_simps)

lemmas binary64_eval = binary64_def ulp_exponent_def binade.simps rne_def Let_def powi_eval


lemma pow2_less_imp:
  assumes "(2::real) powi a < 2 powi b"
  shows "a < b"
proof (rule ccontr)
  assume "\<not> a < b"
  then have "b \<le> a" by simp
  then have "(2::real) powi b \<le> 2 powi a" by (rule power_int_increasing) simp
  with assms show False by simp
qed

lemma pow2_mono: "a \<le> b \<Longrightarrow> (2::real) powi a \<le> 2 powi b"
  by (rule power_int_increasing) simp_all

lemma binade_bounds:
  "0 < x \<Longrightarrow> 2 powi binade x \<le> x \<and> x < 2 powi (binade x + 1)"
proof (induction x rule: binade.induct)
  case (1 x)
  show ?case
  proof (cases "2 \<le> x")
    case True
    with "1.prems" have b: "binade x = binade (x / 2) + 1"
      by (subst binade.simps) simp
    have "2 powi binade (x / 2) \<le> x / 2 \<and> x / 2 < 2 powi (binade (x / 2) + 1)"
      using "1.IH"(1) "1.prems" True by simp
    then show ?thesis
      unfolding b by (simp add: power_int_add field_simps)
  next
    case False
    show ?thesis
    proof (cases "x < 1")
      case True
      with "1.prems" False have b: "binade x = binade (2 * x) - 1"
        by (subst binade.simps) simp
      have "2 powi binade (2 * x) \<le> 2 * x \<and> 2 * x < 2 powi (binade (2 * x) + 1)"
        using "1.IH"(2) "1.prems" False True by simp
      then show ?thesis
        unfolding b by (simp add: power_int_add power_int_diff field_simps)
    next
      case f: False
      with "1.prems" False have "binade x = 0"
        by (subst binade.simps) simp
      with False f show ?thesis by simp
    qed
  qed
qed

lemma binade_unique:
  assumes "0 < x" and "2 powi e \<le> x" and "x < 2 powi (e + 1)"
  shows "binade x = e"
proof -
  from binade_bounds [OF assms(1)]
  have b: "2 powi binade x \<le> x" "x < 2 powi (binade x + 1)" by simp_all
  have "(2::real) powi e < 2 powi (binade x + 1)" using assms(2) b(2) by simp
  then have "e < binade x + 1" by (rule pow2_less_imp)
  moreover have "(2::real) powi binade x < 2 powi (e + 1)" using assms(3) b(1) by simp
  then have "binade x < e + 1" by (rule pow2_less_imp)
  ultimately show ?thesis by simp
qed

lemma binade_less:
  assumes "0 < x" and "x < 2 powi k"
  shows "binade x < k"
proof -
  from binade_bounds [OF assms(1)] assms(2)
  have "(2::real) powi binade x < 2 powi k" by simp
  then show ?thesis by (rule pow2_less_imp)
qed


lemma rne_of_int [simp]: "rne (of_int n) = n"
  by (simp add: rne_def)

lemma rne_mono:
  assumes "y \<le> z"
  shows "rne y \<le> rne z"
proof (cases "\<lfloor>y\<rfloor> = \<lfloor>z\<rfloor>")
  case True
  with assms have "y - of_int \<lfloor>y\<rfloor> \<le> z - of_int \<lfloor>z\<rfloor>" by simp
  with True show ?thesis by (auto simp add: rne_def Let_def)
next
  case False
  with assms have lt: "\<lfloor>y\<rfloor> < \<lfloor>z\<rfloor>" using floor_mono [of y z] by simp
  have "rne y \<le> \<lfloor>y\<rfloor> + 1" by (simp add: rne_def Let_def)
  moreover have "\<lfloor>z\<rfloor> \<le> rne z" by (simp add: rne_def Let_def)
  ultimately show ?thesis using lt by simp
qed

lemma rne_le_int: "y \<le> of_int n \<Longrightarrow> rne y \<le> n"
  using rne_mono [of y "of_int n"] by simp

lemma rne_ge_int: "of_int n \<le> y \<Longrightarrow> n \<le> rne y"
  using rne_mono [of "of_int n" y] by simp

subsection \<open>Rounding to a double is monotone\<close>

lemma binary64_zero [simp]: "binary64 0 = 0"
  by (simp add: binary64_def)

lemma ulp_exponent_minus [simp]: "ulp_exponent (- x) = ulp_exponent x"
  by (simp add: ulp_exponent_def)

lemma binary64_minus: "binary64 (- x) = - binary64 x"
  by (simp add: binary64_def)

lemma binary64_pos:
  "0 < x \<Longrightarrow> binary64 x = of_int (rne (x / 2 powi ulp_exponent x)) * 2 powi ulp_exponent x"
  by (simp add: binary64_def)





lemma powi_as_grid:
  assumes "e \<le> k"
  shows "(2::real) powi k = of_int (2 ^ nat (k - e)) * 2 powi e"
proof -
  have "(2::real) powi k = 2 powi (k - e) * 2 powi e"
    by (simp add: power_int_add [symmetric])
  also have "(2::real) powi (k - e) = 2 ^ nat (k - e)"
    using assms by (simp add: power_int_def)
  finally show ?thesis by simp
qed






subsection \<open>Doubles are fixed points of rounding\<close>

lemma binary64_exact_pos:
  assumes "0 < x" and "x = of_int m * 2 powi k" and "ulp_exponent x \<le> k"
  shows "binary64 x = x"
proof -
  let ?e = "ulp_exponent x"
  have "x = of_int m * (of_int (2 ^ nat (k - ?e)) * 2 powi ?e)"
    using assms(2) powi_as_grid [OF assms(3)] by simp
  then have g: "x = of_int (m * 2 ^ nat (k - ?e)) * 2 powi ?e" by simp
  then have "x / 2 powi ?e = of_int (m * 2 ^ nat (k - ?e)) * 2 powi ?e / 2 powi ?e"
    by (rule arg_cong [where f = "\<lambda>t. t / 2 powi ?e"])
  then have "x / 2 powi ?e = of_int (m * 2 ^ nat (k - ?e))" by simp
  then have "rne (x / 2 powi ?e) = m * 2 ^ nat (k - ?e)" by (simp only: rne_of_int)
  then have "binary64 x = of_int (m * 2 ^ nat (k - ?e)) * 2 powi ?e"
    using assms(1) by (simp only: binary64_pos)
  with g show ?thesis by simp
qed

lemma binary64_exact:
  assumes "x = of_int m * 2 powi k" and "x \<noteq> 0 \<Longrightarrow> ulp_exponent x \<le> k"
  shows "binary64 x = x"
proof -
  consider "x = 0" | "0 < x" | "x < 0" by linarith
  then show ?thesis
  proof cases
    case 1 then show ?thesis by simp
  next
    case 2
    then have "x \<noteq> 0" by simp
    then have "ulp_exponent x \<le> k" by (rule assms(2))
    with 2 assms(1) show ?thesis by (rule binary64_exact_pos)
  next
    case 3
    then have "0 < - x" by simp
    moreover have "- x = of_int (- m) * 2 powi k" using assms(1) by simp
    moreover have "ulp_exponent (- x) \<le> k"
    proof -
      from 3 have "x \<noteq> 0" by simp
      then have "ulp_exponent x \<le> k" by (rule assms(2))
      then show ?thesis by simp
    qed
    ultimately have "binary64 (- x) = - x" by (rule binary64_exact_pos)
    then show ?thesis by (simp add: binary64_minus)
  qed
qed

lemma ulp_exponent_le:
  assumes "0 < x" and "x < 2 powi (k + 53)" and "- 1074 \<le> k"
  shows "ulp_exponent x \<le> k"
proof -
  from assms(1,2) have "binade x < k + 53" by (rule binade_less)
  with assms(1,3) show ?thesis by (simp add: ulp_exponent_def)
qed

lemma binary64_of_int:
  assumes "\<bar>n\<bar> < 2 ^ 53"
  shows "binary64 (of_int n) = of_int n"
proof (rule binary64_exact [where m = n and k = 0])
  show "real_of_int n = of_int n * 2 powi 0" by simp
  assume "real_of_int n \<noteq> 0"
  then have "0 < \<bar>real_of_int n\<bar>" by simp
  moreover have "\<bar>real_of_int n\<bar> < 2 powi (0 + 53)"
  proof -
    have "real_of_int \<bar>n\<bar> < real_of_int (2 ^ 53)" using assms by (simp only: of_int_less_iff)
    then show ?thesis by simp
  qed
  ultimately have "ulp_exponent \<bar>real_of_int n\<bar> \<le> 0" by (rule ulp_exponent_le) simp
  then show "ulp_exponent (real_of_int n) \<le> 0" by (simp add: ulp_exponent_def)
qed

lemma binary64_pow2:
  assumes "- 1074 \<le> k"
  shows "binary64 (2 powi k) = 2 powi k"
proof (rule binary64_exact [where m = 1 and k = k])
  show "(2::real) powi k = of_int 1 * 2 powi k" by simp
  have "binade (2 powi k) = k"
    by (rule binade_unique) (simp_all add: pow2_mono power_int_strict_increasing)
  then show "ulp_exponent (2 powi k) \<le> k" using assms by (simp add: ulp_exponent_def)
qed

lemma binary64_idem_pos:
  assumes "0 < x"
  shows "binary64 (binary64 x) = binary64 x"
proof -
  let ?e = "ulp_exponent x"
  let ?n = "rne (x / 2 powi ?e)"
  have v: "binary64 x = of_int ?n * 2 powi ?e" using assms by (rule binary64_pos)
  have e: "binade x - 52 \<le> ?e" "- 1074 \<le> ?e"
    using assms by (simp_all add: ulp_exponent_def)
  have "x < 2 powi (binade x + 1)" using binade_bounds [OF assms] by simp
  also have "\<dots> \<le> 2 powi (?e + 53)" using e by (intro pow2_mono) simp
  also have "\<dots> = 2 powi 53 * 2 powi ?e" by (simp add: power_int_add)
  finally have "x / 2 powi ?e < 2 powi 53" by (simp add: field_simps)
  then have "x / 2 powi ?e \<le> of_int (2 ^ 53)" by simp
  then have n53: "?n \<le> 2 ^ 53" by (rule rne_le_int)
  have "of_int 0 \<le> x / 2 powi ?e" using assms by simp
  then have n0: "0 \<le> ?n" by (rule rne_ge_int)
  show ?thesis
  proof (cases "?n = 2 ^ 53")
    case True
    then have "binary64 x = 2 powi 53 * 2 powi ?e" using v by simp
    then have p: "binary64 x = 2 powi (?e + 53)" by (simp add: power_int_add)
    have "- 1074 \<le> ?e + 53" using e by simp
    then show ?thesis unfolding p by (rule binary64_pow2)
  next
    case False
    with n53 have lt: "?n < 2 ^ 53" by simp
    show ?thesis
    proof (rule binary64_exact [where m = ?n and k = ?e])
      show "binary64 x = of_int ?n * 2 powi ?e" by (rule v)
      assume "binary64 x \<noteq> 0"
      with v n0 have p: "0 < binary64 x"
        by (simp add: zero_less_mult_iff less_le)
      have "real_of_int ?n < 2 ^ 53" using lt by simp
      then have "real_of_int ?n * 2 powi ?e < 2 ^ 53 * 2 powi ?e"
        by (intro mult_strict_right_mono) simp_all
      then have "binary64 x < 2 powi (?e + 53)" using v by (simp add: power_int_add)
      with p show "ulp_exponent (binary64 x) \<le> ?e" using e(2) by (rule ulp_exponent_le)
    qed
  qed
qed

lemma binary64_idem [simp]: "binary64 (binary64 x) = binary64 x"
proof -
  consider "x = 0" | "0 < x" | "x < 0" by linarith
  then show ?thesis
  proof cases
    case 1 then show ?thesis by simp
  next
    case 2 then show ?thesis by (rule binary64_idem_pos)
  next
    case 3
    then have "binary64 (binary64 (- x)) = binary64 (- x)" by (intro binary64_idem_pos) simp
    then show ?thesis by (simp add: binary64_minus)
  qed
qed



subsection \<open>The rounded loop returns\<close>





subsection \<open>Bounds and spacing of the offsets of the rounded loop\<close>




subsection \<open>Offsets and the rendered height\<close>




text \<open>
  The bound by the rounded sum is met: with page height 1.5, total height 2 and
  calibration offset \<open>2\<^sup>5\<^sup>3\<close> the one break equals the rounded sum of total height and
  calibration offset.
\<close>

lemma offset_meets_rounded_sum:
  "calculateSimpleBreaks64 1.5 2 (2 ^ 53) 50 = Some [2 ^ 53 + 2] \<and>
   binary64 (2 + 2 ^ 53) = 2 ^ 53 + 2"
  by (simp add: calculateSimpleBreaks64_def simpleBreaks_loop64.simps binary64_eval)

subsection \<open>Order and spacing\<close>




end
